theory Spec2Isabelle
  imports Complex_Main "HOL-Library.Sublist" "HOL-Library.Multiset"
begin

section \<open>Data model\<close>

text \<open>
  The server of \<^verbatim>\<open>src/index.js\<close> reads a Figma document tree (parsed JSON), classifies
  its nodes and compares the atomic components found with a component registry.

  A property of a JSON object that may be absent is an \<open>option\<close> (\<open>None\<close> is JavaScript's
  \<^verbatim>\<open>undefined\<close>). Names are strings of ASCII characters, numbers are finite and modelled
  as \<open>real\<close>, and the style payloads the code only copies are values of a type
  parameter \<open>'v\<close>.
\<close>

datatype error =
    TypeError
  | SyntaxError
  | RequestError (status: "nat option") (err_message: string)

record bounding_box =
  width :: "real option"
  height :: "real option"

datatype 'v node = Node
  (name: "string option")
  (node_id: "string option")
  (node_type: string)
  (absoluteBoundingBox: "bounding_box option")
  (children: "'v node list option")
  (description: "string option")
  (backgroundColor: "'v option")
  (opacity: "'v option")
  (effects: "'v option")

datatype category =
  STATUS_BAR | BUTTON | INPUT | TEXT | ICON | IMAGE | AVATAR | BADGE | CARD | LIST | TAB
  | MODAL | OTHER

record 'v styles =
  st_backgroundColor :: "'v option"
  st_opacity :: "'v option"
  st_effects :: "'v option"

record 'v component_record =
  c_name :: "string option"
  c_id :: "string option"
  c_path :: "string option list"
  c_type :: string
  c_category :: category
  c_description :: string
  c_width :: "real option"
  c_height :: "real option"
  c_children :: nat
  c_styles :: "'v styles"

record screen_record =
  s_name :: "string option"
  s_id :: "string option"
  s_type :: string
  s_width :: "real option"
  s_height :: "real option"

section \<open>Strings\<close>

text \<open>\<^verbatim>\<open>String.prototype.toLowerCase\<close> on ASCII text: the letters A to Z move to a to z.\<close>

definition lower_char :: "char \<Rightarrow> char" where
  "lower_char c =
     (case map_of (zip ''ABCDEFGHIJKLMNOPQRSTUVWXYZ'' ''abcdefghijklmnopqrstuvwxyz'') c of
        None \<Rightarrow> c
      | Some l \<Rightarrow> l)"

definition toLowerCase :: "string \<Rightarrow> string" where
  "toLowerCase s = map lower_char s"

text \<open>\<^verbatim>\<open>s.includes(p)\<close>: \<open>p\<close> occurs in \<open>s\<close> as a contiguous substring.\<close>

fun str_includes :: "string \<Rightarrow> string \<Rightarrow> bool" where
  "str_includes [] p = (p = [])"
| "str_includes (c # cs) p = (prefix p (c # cs) \<or> str_includes cs p)"

section \<open>Classification\<close>

definition atomicPatterns :: "string list" where
  "atomicPatterns =
     [''button'', ''input'', ''text'', ''icon'', ''image'', ''avatar'', ''badge'',
      ''statusbar'', ''header'', ''footer'', ''card'', ''list'', ''tab'', ''modal'',
      ''checkbox'', ''radio'', ''switch'', ''slider'', ''progress'', ''spinner'']"

text \<open>
  \<^verbatim>\<open>node.absoluteBoundingBox?.width\<close>: absent when the box or the dimension is absent.
\<close>

definition box_width :: "'v node \<Rightarrow> real option" where
  "box_width node = (case absoluteBoundingBox node of None \<Rightarrow> None | Some b \<Rightarrow> width b)"

definition box_height :: "'v node \<Rightarrow> real option" where
  "box_height node = (case absoluteBoundingBox node of None \<Rightarrow> None | Some b \<Rightarrow> height b)"

text \<open>A comparison with \<^verbatim>\<open>undefined\<close> is false.\<close>

definition js_less :: "real option \<Rightarrow> real \<Rightarrow> bool" where
  "js_less x k = (case x of None \<Rightarrow> False | Some v \<Rightarrow> v < k)"

definition js_ge :: "real option \<Rightarrow> real \<Rightarrow> bool" where
  "js_ge x k = (case x of None \<Rightarrow> False | Some v \<Rightarrow> v \<ge> k)"

text \<open>
  \<^verbatim>\<open>node.name.toLowerCase()\<close> is the first statement of each of the three functions
  below: on a node without a name it throws a TypeError.
\<close>

definition isAtomicComponent :: "'v node \<Rightarrow> error + bool" where
  "isAtomicComponent node =
     (case name node of
        None \<Rightarrow> Inl TypeError
      | Some nm \<Rightarrow>
          (let lname = toLowerCase nm;
               isComponent = (node_type node = ''COMPONENT'' \<or> node_type node = ''INSTANCE'');
               isAtomic = list_ex (\<lambda>pattern. str_includes lname pattern) atomicPatterns;
               isSmall = (js_less (box_width node) 500 \<and> js_less (box_height node) 500)
           in Inr (isComponent \<and> (isAtomic \<or> isSmall))))"

definition screenPatterns :: "string list" where
  "screenPatterns =
     [''page'', ''screen'', ''view'', ''layout'', ''container'', ''section'',
      ''home'', ''dashboard'', ''profile'', ''settings'']"

definition isScreenOrFrame :: "'v node \<Rightarrow> error + bool" where
  "isScreenOrFrame node =
     (case name node of
        None \<Rightarrow> Inl TypeError
      | Some nm \<Rightarrow>
          (let lname = toLowerCase nm;
               isFrame = (node_type node = ''FRAME'');
               isScreen = list_ex (\<lambda>pattern. str_includes lname pattern) screenPatterns;
               isLarge = (js_ge (box_width node) 500 \<or> js_ge (box_height node) 500)
           in Inr (isFrame \<and> (isScreen \<or> isLarge))))"

definition determineComponentCategory :: "'v node \<Rightarrow> error + category" where
  "determineComponentCategory node =
     (case name node of
        None \<Rightarrow> Inl TypeError
      | Some nm \<Rightarrow>
          (let lname = toLowerCase nm in
           if str_includes lname ''statusbar'' then Inr STATUS_BAR
           else if str_includes lname ''button'' then Inr BUTTON
           else if str_includes lname ''input'' \<or> str_includes lname ''textfield'' then Inr INPUT
           else if str_includes lname ''text'' then Inr TEXT
           else if str_includes lname ''icon'' then Inr ICON
           else if str_includes lname ''image'' then Inr IMAGE
           else if str_includes lname ''avatar'' then Inr AVATAR
           else if str_includes lname ''badge'' then Inr BADGE
           else if str_includes lname ''card'' then Inr CARD
           else if str_includes lname ''list'' then Inr LIST
           else if str_includes lname ''tab'' then Inr TAB
           else if str_includes lname ''modal'' then Inr MODAL
           else Inr OTHER))"

section \<open>The tree walk\<close>

text \<open>
  \<^verbatim>\<open>extractAllNestedComponents\<close> keeps two arrays, \<^verbatim>\<open>components\<close> and \<^verbatim>\<open>screens\<close>, that
  \<^verbatim>\<open>walk\<close> pushes to. The model passes the pair along and returns it; an exception
  ends the walk at once (\<open>Inl\<close>).
\<close>

type_synonym 'v walk_state = "'v component_record list \<times> screen_record list"

definition component_of :: "'v node \<Rightarrow> string option list \<Rightarrow> category \<Rightarrow> 'v component_record" where
  "component_of node parentPath cat =
     \<lparr> c_name = name node,
       c_id = node_id node,
       c_path = parentPath @ [name node],
       c_type = node_type node,
       c_category = cat,
       c_description = (case description node of None \<Rightarrow> [] | Some d \<Rightarrow> d),
       c_width = box_width node,
       c_height = box_height node,
       c_children = (case children node of None \<Rightarrow> 0 | Some cs \<Rightarrow> length cs),
       c_styles = \<lparr> st_backgroundColor = backgroundColor node,
                    st_opacity = opacity node,
                    st_effects = effects node \<rparr> \<rparr>"

definition screen_of :: "'v node \<Rightarrow> screen_record" where
  "screen_of node =
     \<lparr> s_name = name node,
       s_id = node_id node,
       s_type = ''SCREEN'',
       s_width = box_width node,
       s_height = box_height node \<rparr>"

text \<open>The \<^verbatim>\<open>if\<close> / \<^verbatim>\<open>else if\<close> at the head of \<^verbatim>\<open>walk\<close>: what one node adds to the arrays.\<close>

definition visit :: "'v node \<Rightarrow> string option list \<Rightarrow> 'v walk_state \<Rightarrow> error + 'v walk_state" where
  "visit node parentPath st =
     (case isAtomicComponent node of
        Inl e \<Rightarrow> Inl e
      | Inr True \<Rightarrow>
          (case determineComponentCategory node of
             Inl e \<Rightarrow> Inl e
           | Inr cat \<Rightarrow> Inr (fst st @ [component_of node parentPath cat], snd st))
      | Inr False \<Rightarrow>
          (case isScreenOrFrame node of
             Inl e \<Rightarrow> Inl e
           | Inr True \<Rightarrow> Inr (fst st, snd st @ [screen_of node])
           | Inr False \<Rightarrow> Inr st))"

fun walk :: "'v node \<Rightarrow> string option list \<Rightarrow> 'v walk_state \<Rightarrow> error + 'v walk_state"
  and walk_each :: "'v node list \<Rightarrow> string option list \<Rightarrow> 'v walk_state \<Rightarrow> error + 'v walk_state"
where
  "walk (Node nm i t b cs d bg op ef) parentPath st =
     (case visit (Node nm i t b cs d bg op ef) parentPath st of
        Inl e \<Rightarrow> Inl e
      | Inr st' \<Rightarrow>
          (case cs of
             None \<Rightarrow> Inr st'
           | Some kids \<Rightarrow> walk_each kids (parentPath @ [nm]) st'))"
| "walk_each [] parentPath st = Inr st"
| "walk_each (child # rest) parentPath st =
     (case walk child parentPath st of
        Inl e \<Rightarrow> Inl e
      | Inr st' \<Rightarrow> walk_each rest parentPath st')"

definition extractAllNestedComponents :: "'v node \<Rightarrow> error + 'v walk_state" where
  "extractAllNestedComponents document = walk document [] ([], [])"


text \<open>
  The outcome of the \<^verbatim>\<open>if\<close> / \<^verbatim>\<open>else if\<close> of \<^verbatim>\<open>walk\<close> for one node: the first branch
  taken, or neither.
\<close>

datatype outcome = Atomic | Screen | Neither

definition classify :: "'v node \<Rightarrow> error + outcome" where
  "classify node =
     (case isAtomicComponent node of
        Inl e \<Rightarrow> Inl e
      | Inr True \<Rightarrow> Inr Atomic
      | Inr False \<Rightarrow>
          (case isScreenOrFrame node of
             Inl e \<Rightarrow> Inl e
           | Inr True \<Rightarrow> Inr Screen
           | Inr False \<Rightarrow> Inr Neither))"

section \<open>The traversal the specification describes\<close>

text \<open>
  The specification's TreeWalker: the nodes of a tree in depth-first pre-order, a parent
  before its children and siblings in their order, each with the names of its strict
  ancestors, root first. A node without \<^verbatim>\<open>children\<close> is a leaf.
\<close>

fun descriptors :: "string option list \<Rightarrow> 'v node \<Rightarrow> ('v node \<times> string option list) list"
  and descriptors_each :: "string option list \<Rightarrow> 'v node list \<Rightarrow> ('v node \<times> string option list) list"
where
  "descriptors ancestors (Node nm i t b cs d bg op ef) =
     (Node nm i t b cs d bg op ef, ancestors)
       # (case cs of None \<Rightarrow> [] | Some kids \<Rightarrow> descriptors_each (ancestors @ [nm]) kids)"
| "descriptors_each ancestors [] = []"
| "descriptors_each ancestors (k # ks) =
     descriptors ancestors k @ descriptors_each ancestors ks"

text \<open>The same order without the paths.\<close>

fun preorder :: "'v node \<Rightarrow> 'v node list" where
  "preorder (Node nm i t b cs d bg op ef) =
     Node nm i t b cs d bg op ef
       # (case cs of None \<Rightarrow> [] | Some kids \<Rightarrow> concat (map preorder kids))"

text \<open>
  The strict ancestors of a node \<open>n\<close> below \<open>r\<close>: the chain \<open>r\<close>, a child of \<open>r\<close>, a child
  of that child, and so on down to the parent of \<open>n\<close>. The chain is empty when \<open>n\<close> is \<open>r\<close>
  itself.
\<close>

definition kids_of :: "'v node \<Rightarrow> 'v node list" where
  "kids_of node = (case children node of None \<Rightarrow> [] | Some kids \<Rightarrow> kids)"

fun chain :: "'v node \<Rightarrow> 'v node list \<Rightarrow> 'v node \<Rightarrow> bool" where
  "chain r [] n = (n = r)"
| "chain r (a # as) n = (a = r \<and> list_ex (\<lambda>k. chain k as n) (kids_of r))"

text \<open>The consumer of the descriptors: each node is handled once, in sequence.\<close>

fun visit_all :: "('v node \<times> string option list) list \<Rightarrow> 'v walk_state \<Rightarrow> error + 'v walk_state" where
  "visit_all [] st = Inr st"
| "visit_all (d # ds) st =
     (case visit (fst d) (snd d) st of
        Inl e \<Rightarrow> Inl e
      | Inr st' \<Rightarrow> visit_all ds st')"

text \<open>
  The specification's ordered table of category checks: the first row one of whose
  substrings occurs in the lower-cased name gives the category, no row gives \<open>OTHER\<close>.
\<close>

definition category_table :: "(string list \<times> category) list" where
  "category_table =
     [([''statusbar''], STATUS_BAR), ([''button''], BUTTON),
      ([''input'', ''textfield''], INPUT), ([''text''], TEXT), ([''icon''], ICON),
      ([''image''], IMAGE), ([''avatar''], AVATAR), ([''badge''], BADGE),
      ([''card''], CARD), ([''list''], LIST), ([''tab''], TAB), ([''modal''], MODAL)]"

definition first_match :: "string \<Rightarrow> category" where
  "first_match lname =
     (case find (\<lambda>row. list_ex (\<lambda>p. sublist p lname) (fst row)) category_table of
        None \<Rightarrow> OTHER
      | Some row \<Rightarrow> snd row)"


section \<open>Registry matching\<close>

subsection \<open>The single-component endpoint\<close>

text \<open>
  \<^verbatim>\<open>/api/check-component\<close>, once the registry text is there: \<^verbatim>\<open>componentExists\<close> is
  \<^verbatim>\<open>registryContent.includes(componentName)\<close>, and \<^verbatim>\<open>newComponents\<close> filters
  \<^verbatim>\<open>figmaComponents\<close> by the lower-cased name against the lower-cased registry text
  (reading \<^verbatim>\<open>component.name.toLowerCase()\<close> of a component without a name throws).
\<close>

definition componentExists :: "string \<Rightarrow> string \<Rightarrow> bool" where
  "componentExists registryContent componentName = str_includes registryContent componentName"

fun newComponents :: "string \<Rightarrow> 'v component_record list \<Rightarrow> error + 'v component_record list" where
  "newComponents registryContent [] = Inr []"
| "newComponents registryContent (component # rest) =
     (case c_name component of
        None \<Rightarrow> Inl TypeError
      | Some nm \<Rightarrow>
          (case newComponents registryContent rest of
             Inl e \<Rightarrow> Inl e
           | Inr keep \<Rightarrow>
               Inr (if \<not> str_includes (toLowerCase registryContent) (toLowerCase nm)
                    then component # keep else keep)))"

text \<open>The five fields of a new component that the response keeps.\<close>

record new_component =
  nc_name :: "string option"
  nc_category :: category
  nc_description :: string
  nc_width :: "real option"
  nc_height :: "real option"

definition summary :: "'v component_record \<Rightarrow> new_component" where
  "summary component =
     \<lparr> nc_name = c_name component,
       nc_category = c_category component,
       nc_description = c_description component,
       nc_width = c_width component,
       nc_height = c_height component \<rparr>"

record check_result =
  cr_exists :: bool
  cr_message :: string
  cr_newComponents :: "new_component list"

definition check_component ::
  "string \<Rightarrow> string \<Rightarrow> 'v component_record list \<Rightarrow> error + check_result" where
  "check_component registryContent componentName figmaComponents =
     (let found = componentExists registryContent componentName in
      case newComponents registryContent figmaComponents of
        Inl e \<Rightarrow> Inl e
      | Inr fresh \<Rightarrow>
          Inr \<lparr> cr_exists = found,
                cr_message = (if found then ''Component found in registry''
                              else ''Component not found in registry''),
                cr_newComponents = map summary fresh \<rparr>)"

subsection \<open>The combined endpoint\<close>

text \<open>
  \<^verbatim>\<open>/api/parse-and-check\<close> talks to three services. Their answers are the fields of
  \<open>env\<close>, and a request that fails (or whose answer cannot be read) is \<open>Inl\<close>:
  \<^item> \<open>fileResponse\<close> is the Figma file request, of which the report keeps name, date and
    version;
  \<^item> \<open>nodeData\<close> is the document node the handler goes on with, taken from the file or
    from the second request when the call names a node;
  \<^item> \<open>tree_page\<close> is the GitLab repository tree, page by page;
  \<^item> \<open>registry_raw\<close> is the raw content of the file at a path;
  \<^item> \<open>fuzzy_oracle\<close> is the parsed JSON answer of the chat completion to the registry
    text and the component names. Either of its two lists may be missing.
\<close>

record file_info =
  fi_name :: "string option"
  fi_lastModified :: "string option"
  fi_version :: "string option"

record repo_file =
  file_path :: string

record oracle_match =
  originalName :: "string option"
  matchedName :: "string option"

record analysis =
  a_existing :: "oracle_match list option"
  a_new :: "string list option"

record 'v env =
  fileResponse :: "error + file_info"
  nodeData :: "error + 'v node"
  tree_page :: "nat \<Rightarrow> error + repo_file list"
  registry_raw :: "string \<Rightarrow> error + string"
  fuzzy_oracle :: "string \<Rightarrow> string option list \<Rightarrow> error + analysis"

record 'v report =
  r_message :: string
  r_availablePaths :: "string list option"
  r_existing :: "'v component_record list"
  r_new :: "'v component_record list"
  r_analysis :: "analysis option"
  r_screens :: "screen_record list"
  r_fileInfo :: file_info
  r_gitlabError :: "error option"

datatype 'v response =
    Success "'v report"
  | Failure500 error

text \<open>
  The \<^verbatim>\<open>while (hasMore)\<close> loop over the pages of the repository tree. It ends at the
  first empty page or failed request, and runs on while pages keep coming: \<open>None\<close>.
\<close>

partial_function (option) fetch_tree ::
  "(nat \<Rightarrow> error + repo_file list) \<Rightarrow> nat \<Rightarrow> repo_file list \<Rightarrow> (error + repo_file list) option"
where
  "fetch_tree get page allFiles =
     (case get page of
        Inl e \<Rightarrow> Some (Inl e)
      | Inr data \<Rightarrow>
          (if data = [] then Some (Inr allFiles)
           else fetch_tree get (page + 1) (allFiles @ data)))"

definition possibleRegistryPaths :: "string list" where
  "possibleRegistryPaths =
     [''packages/customer/src/registry.ts'',
      ''packages/src/customer/vdlComponents/registry.ts'',
      ''packages/src/registry.ts'',
      ''src/registry.ts'']"

fun find_registry :: "string list \<Rightarrow> repo_file list \<Rightarrow> repo_file option" where
  "find_registry [] allFiles = None"
| "find_registry (p # ps) allFiles =
     (case find (\<lambda>file. file_path file = p) allFiles of
        Some registryFile \<Rightarrow> Some registryFile
      | None \<Rightarrow> find_registry ps allFiles)"

text \<open>
  The two filters over the oracle's answer. \<^verbatim>\<open>filter\<close> calls its callback once per
  component, so \<^verbatim>\<open>analysis.existing.some\<close> throws on a missing list only when there
  is a component to test.
\<close>

definition existingComponents ::
  "analysis \<Rightarrow> 'v component_record list \<Rightarrow> error + 'v component_record list" where
  "existingComponents an atomicComponents =
     (if atomicComponents = [] then Inr []
      else case a_existing an of
             None \<Rightarrow> Inl TypeError
           | Some es \<Rightarrow>
               Inr (filter (\<lambda>component. list_ex (\<lambda>e. originalName e = c_name component) es)
                      atomicComponents))"

definition newOfAnalysis ::
  "analysis \<Rightarrow> 'v component_record list \<Rightarrow> error + 'v component_record list" where
  "newOfAnalysis an atomicComponents =
     (if atomicComponents = [] then Inr []
      else case a_new an of
             None \<Rightarrow> Inl TypeError
           | Some ns \<Rightarrow>
               Inr (filter (\<lambda>component. list_ex (\<lambda>n. Some n = c_name component) ns)
                      atomicComponents))"

text \<open>The body of the inner \<^verbatim>\<open>try\<close>, after the tree listing: \<open>Inl\<close> is an exception.\<close>

definition registry_check ::
  "'v env \<Rightarrow> file_info \<Rightarrow> 'v component_record list \<Rightarrow> screen_record list
     \<Rightarrow> error + repo_file list \<Rightarrow> error + 'v report" where
  "registry_check env info atomicComponents screens listing =
     (case listing of
        Inl e \<Rightarrow> Inl e
      | Inr allFiles \<Rightarrow>
          (case find_registry possibleRegistryPaths allFiles of
             None \<Rightarrow>
               Inr \<lparr> r_message = ''Registry file not found in repository'',
                     r_availablePaths = Some (map file_path allFiles),
                     r_existing = [],
                     r_new = atomicComponents,
                     r_analysis = None,
                     r_screens = screens,
                     r_fileInfo = info,
                     r_gitlabError = None \<rparr>
           | Some registryFile \<Rightarrow>
               (case registry_raw env (file_path registryFile) of
                  Inl e \<Rightarrow> Inl e
                | Inr registryContent \<Rightarrow>
                    (case fuzzy_oracle env registryContent (map c_name atomicComponents) of
                       Inl e \<Rightarrow> Inl e
                     | Inr an \<Rightarrow>
                         (case existingComponents an atomicComponents of
                            Inl e \<Rightarrow> Inl e
                          | Inr ex \<Rightarrow>
                              (case newOfAnalysis an atomicComponents of
                                 Inl e \<Rightarrow> Inl e
                               | Inr nw \<Rightarrow>
                                   Inr \<lparr> r_message =
                                           ''Components parsed and checked successfully'',
                                         r_availablePaths = None,
                                         r_existing = ex,
                                         r_new = nw,
                                         r_analysis = Some an,
                                         r_screens = screens,
                                         r_fileInfo = info,
                                         r_gitlabError = None \<rparr>))))))"

text \<open>The inner \<^verbatim>\<open>catch (gitlabError)\<close>: every component is returned as new.\<close>

definition without_registry_check ::
  "file_info \<Rightarrow> 'v component_record list \<Rightarrow> screen_record list \<Rightarrow> error \<Rightarrow> 'v report" where
  "without_registry_check info atomicComponents screens gitlabError =
     \<lparr> r_message = ''GitLab API access failed, returning all components as new'',
       r_availablePaths = None,
       r_existing = [],
       r_new = atomicComponents,
       r_analysis = None,
       r_screens = screens,
       r_fileInfo = info,
       r_gitlabError = Some gitlabError \<rparr>"

definition parse_and_check :: "'v env \<Rightarrow> 'v response option" where
  "parse_and_check env =
     (case fileResponse env of
        Inl err \<Rightarrow> Some (Failure500 err)
      | Inr info \<Rightarrow>
          (case nodeData env of
             Inl err \<Rightarrow> Some (Failure500 err)
           | Inr document \<Rightarrow>
               (case extractAllNestedComponents document of
                  Inl err \<Rightarrow> Some (Failure500 err)
                | Inr found \<Rightarrow>
                    (case fetch_tree (tree_page env) 1 [] of
                       None \<Rightarrow> None
                     | Some listing \<Rightarrow>
                         (case registry_check env info (fst found) (snd found) listing of
                            Inl gitlabError \<Rightarrow>
                              Some (Success (without_registry_check info (fst found)
                                               (snd found) gitlabError))
                          | Inr rep \<Rightarrow> Some (Success rep))))))"


section \<open>Auxiliary definitions for the statements\<close>

text \<open>The record \<^verbatim>\<open>walk\<close> pushes for an atomic node reached with the given path.\<close>

definition record_of :: "'v node \<times> string option list \<Rightarrow> 'v component_record" where
  "record_of d =
     component_of (fst d) (snd d)
       (case determineComponentCategory (fst d) of Inl e \<Rightarrow> OTHER | Inr cat \<Rightarrow> cat)"

text \<open>Example documents: a node with a name, a type and a size, and nothing else.\<close>

definition sized :: "string \<Rightarrow> string \<Rightarrow> real \<Rightarrow> real \<Rightarrow> unit node list option \<Rightarrow> unit node" where
  "sized nm t w h kids =
     Node (Some nm) None t (Some \<lparr> width = Some w, height = Some h \<rparr>) kids None None None None"

definition home_screen :: "unit node" where
  "home_screen =
     sized ''HomeScreen'' ''FRAME'' 800 1200
       (Some [sized ''PrimaryButton'' ''COMPONENT'' 120 40 None,
              sized ''UserAvatar'' ''COMPONENT'' 48 48 None])"

definition nested_card :: "unit node" where
  "nested_card =
     sized ''Checkout Screen'' ''FRAME'' 400 900
       (Some [sized ''Card'' ''COMPONENT'' 300 200
                (Some [sized ''IconButton'' ''INSTANCE'' 40 40
                         (Some [sized ''Icon'' ''COMPONENT'' 16 16 None])])])"

text \<open>The names the oracle's answer lists as existing and as new.\<close>

definition oracle_existing_names :: "analysis \<Rightarrow> string option set" where
  "oracle_existing_names an =
     (case a_existing an of None \<Rightarrow> {} | Some es \<Rightarrow> originalName ` set es)"

definition oracle_new_names :: "analysis \<Rightarrow> string option set" where
  "oracle_new_names an = (case a_new an of None \<Rightarrow> {} | Some ns \<Rightarrow> Some ` set ns)"

text \<open>Example catalogue entries, oracle answers and services.\<close>

definition button_record :: "unit component_record" where
  "button_record =
     component_of (sized ''PrimaryButton'' ''COMPONENT'' 120 40 None) [Some ''HomeScreen''] BUTTON"

definition avatar_record :: "unit component_record" where
  "avatar_record =
     component_of (sized ''UserAvatar'' ''COMPONENT'' 48 48 None) [Some ''HomeScreen''] AVATAR"

definition lowercase_button :: "unit component_record" where
  "lowercase_button =
     component_of (sized ''primarybutton'' ''COMPONENT'' 120 40 None) [] BUTTON"

definition five_components :: "unit node" where
  "five_components =
     Node (Some ''Kit'') None ''CANVAS'' None
       (Some [sized ''PrimaryButton'' ''COMPONENT'' 120 40 None,
              sized ''UserAvatar'' ''COMPONENT'' 48 48 None,
              sized ''SearchInput'' ''COMPONENT'' 240 40 None,
              sized ''Badge'' ''INSTANCE'' 16 16 None,
              sized ''TabBar'' ''COMPONENT'' 375 50 None])
       None None None None"

definition five_records :: "unit component_record list" where
  "five_records =
     [component_of (sized ''PrimaryButton'' ''COMPONENT'' 120 40 None) [Some ''Kit''] BUTTON,
      component_of (sized ''UserAvatar'' ''COMPONENT'' 48 48 None) [Some ''Kit''] AVATAR,
      component_of (sized ''SearchInput'' ''COMPONENT'' 240 40 None) [Some ''Kit''] INPUT,
      component_of (sized ''Badge'' ''INSTANCE'' 16 16 None) [Some ''Kit''] BADGE,
      component_of (sized ''TabBar'' ''COMPONENT'' 375 50 None) [Some ''Kit''] TAB]"

definition example_info :: file_info where
  "example_info =
     \<lparr> fi_name = Some ''Mobile app'', fi_lastModified = Some ''2024-05-01T10:00:00Z'',
       fi_version = Some ''42'' \<rparr>"

definition matching_analysis :: analysis where
  "matching_analysis =
     \<lparr> a_existing = Some [\<lparr> originalName = Some ''PrimaryButton'',
                            matchedName = Some ''primary-button'' \<rparr>],
       a_new = Some [''UserAvatar''] \<rparr>"

definition silent_analysis :: analysis where
  "silent_analysis = \<lparr> a_existing = Some [], a_new = Some [] \<rparr>"

definition doubling_analysis :: analysis where
  "doubling_analysis =
     \<lparr> a_existing = Some [\<lparr> originalName = Some ''PrimaryButton'',
                            matchedName = Some ''primary-button'' \<rparr>],
       a_new = Some [''PrimaryButton''] \<rparr>"

definition two_pages :: "nat \<Rightarrow> error + repo_file list" where
  "two_pages page =
     (if page = 1 then Inr [\<lparr> file_path = ''README.md'' \<rparr>, \<lparr> file_path = ''src/registry.ts'' \<rparr>]
      else Inr [])"

definition env_with :: "analysis \<Rightarrow> unit env" where
  "env_with an =
     \<lparr> fileResponse = Inr example_info,
       nodeData = Inr home_screen,
       tree_page = two_pages,
       registry_raw = (\<lambda>p. Inr ''export { PrimaryButton } from ./PrimaryButton''),
       fuzzy_oracle = (\<lambda>registryContent componentNames. Inr an) \<rparr>"

definition env_unreachable :: "unit env" where
  "env_unreachable =
     \<lparr> fileResponse = Inr example_info,
       nodeData = Inr five_components,
       tree_page = (\<lambda>page. Inl (RequestError (Some 401) ''Request failed with status code 401'')),
       registry_raw = (\<lambda>p. Inl (RequestError (Some 404) ''Request failed with status code 404'')),
       fuzzy_oracle = (\<lambda>registryContent componentNames. Inr silent_analysis) \<rparr>"

section \<open>Strings and comparisons\<close>

lemma str_includes_sublist: "str_includes s p = sublist p s"
  by (induction s) (simp_all add: sublist_Cons_right)

lemma js_less_iff: "js_less x k = (\<exists>v. x = Some v \<and> v < k)"
  by (cases x) (simp_all add: js_less_def)

lemma js_ge_iff: "js_ge x k = (\<exists>v. x = Some v \<and> v \<ge> k)"
  by (cases x) (simp_all add: js_ge_def)

lemmas lower_simps = toLowerCase_def lower_char_def

lemmas sublist_eval = str_includes_sublist [symmetric]

lemmas sized_simps = sized_def box_width_def box_height_def

section \<open>The classifier\<close>

lemma name_None_fails:
  "name node = None \<Longrightarrow> isAtomicComponent node = Inl TypeError"
  "name node = None \<Longrightarrow> isScreenOrFrame node = Inl TypeError"
  "name node = None \<Longrightarrow> determineComponentCategory node = Inl TypeError"
  by (simp_all add: isAtomicComponent_def isScreenOrFrame_def determineComponentCategory_def)

lemma name_Some_returns:
  assumes "name node = Some nm"
  shows "\<exists>b. isAtomicComponent node = Inr b" "\<exists>b. isScreenOrFrame node = Inr b"
    "\<exists>c. determineComponentCategory node = Inr c"
  using assms
  by (simp_all add: isAtomicComponent_def isScreenOrFrame_def determineComponentCategory_def Let_def)

lemma small_iff:
  "(js_less (box_width node) 500 \<and> js_less (box_height node) 500) =
     (\<exists>b w h. absoluteBoundingBox node = Some b \<and> width b = Some w \<and>
               height b = Some h \<and> w < 500 \<and> h < 500)"
  by (cases "absoluteBoundingBox node") (auto simp: js_less_iff box_width_def box_height_def)

lemma isScreenOrFrame_named:
  assumes "name node = Some nm"
  shows "isScreenOrFrame node =
     Inr (node_type node = ''FRAME'' \<and>
          ((\<exists>p \<in> set [''page'', ''screen'', ''view'', ''layout'', ''container'', ''section'',
                ''home'', ''dashboard'', ''profile'', ''settings'']. sublist p (toLowerCase nm)) \<or>
           (\<exists>w. box_width node = Some w \<and> w \<ge> 500) \<or>
           (\<exists>h. box_height node = Some h \<and> h \<ge> 500)))"
  using assms
  by (simp add: isScreenOrFrame_def Let_def js_ge_iff str_includes_sublist screenPatterns_def)

lemma determineComponentCategory_first_match:
  assumes "name node = Some nm"
  shows "determineComponentCategory node = Inr (first_match (toLowerCase nm))"
  using assms
  by (simp add: determineComponentCategory_def first_match_def category_table_def Let_def
      str_includes_sublist)

text \<open>
  Claim C2. For a node with a name, \<^verbatim>\<open>isAtomicComponent\<close> returns true exactly when the
  type is COMPONENT or INSTANCE and either the lower-cased name contains one of the twenty
  patterns or the bounding box has a width and a height, both below 500. A missing box or
  dimension makes the size test false; the function still returns.
\<close>

theorem isAtomicComponent_iff:
  assumes "name node = Some nm"
  shows "isAtomicComponent node =
     Inr ((node_type node = ''COMPONENT'' \<or> node_type node = ''INSTANCE'') \<and>
          ((\<exists>p \<in> set [''button'', ''input'', ''text'', ''icon'', ''image'', ''avatar'',
                ''badge'', ''statusbar'', ''header'', ''footer'', ''card'', ''list'', ''tab'',
                ''modal'', ''checkbox'', ''radio'', ''switch'', ''slider'', ''progress'',
                ''spinner'']. sublist p (toLowerCase nm)) \<or>
           (\<exists>b w h. absoluteBoundingBox node = Some b \<and> width b = Some w \<and>
                height b = Some h \<and> w < 500 \<and> h < 500)))"
  using assms
  by (simp add: isAtomicComponent_def Let_def small_iff str_includes_sublist atomicPatterns_def)

theorem isAtomicComponent_iff_witness:
  "name (Node (Some ''SpinnerLarge'') None ''INSTANCE'' None None None (None :: unit option)
           None None) = Some ''SpinnerLarge''
   \<and> isAtomicComponent (Node (Some ''SpinnerLarge'') None ''INSTANCE'' None None None
           (None :: unit option) None None) = Inr True
   \<and> name (sized ''Divider'' ''COMPONENT'' 320 1 None) = Some ''Divider''
   \<and> isAtomicComponent (sized ''Divider'' ''COMPONENT'' 320 1 None) = Inr True"
  using isAtomicComponent_iff [of "Node (Some ''SpinnerLarge'') None ''INSTANCE'' None None None
           (None :: unit option) None None" "''SpinnerLarge''"]
    isAtomicComponent_iff [of "sized ''Divider'' ''COMPONENT'' 320 1 None" "''Divider''"]
  by (simp add: lower_simps sized_def)

text \<open>
  Claim C3. For a node with a name the \<^verbatim>\<open>if\<close> / \<^verbatim>\<open>else if\<close> of \<^verbatim>\<open>walk\<close> has exactly one
  of three outcomes. It is atomic whenever the atomic predicate holds; the screen predicate
  (type FRAME and a screen keyword in the name, or a width or height of at least 500, false
  when the dimension is missing) decides only when the atomic predicate is false. An atomic
  node adds one component record, a screen one screen record, any other node nothing.
\<close>

theorem classify_trichotomy:
  assumes "name node = Some nm"
  shows "classify node =
     Inr (if isAtomicComponent node = Inr True then Atomic
          else if node_type node = ''FRAME'' \<and>
               ((\<exists>p \<in> set [''page'', ''screen'', ''view'', ''layout'', ''container'',
                    ''section'', ''home'', ''dashboard'', ''profile'', ''settings''].
                    sublist p (toLowerCase nm)) \<or>
                (\<exists>w. box_width node = Some w \<and> w \<ge> 500) \<or>
                (\<exists>h. box_height node = Some h \<and> h \<ge> 500))
          then Screen else Neither)
   \<and> visit node parentPath (cs, ss) =
     Inr (case classify node of
            Inr Atomic \<Rightarrow> (cs @ [component_of node parentPath (first_match (toLowerCase nm))], ss)
          | Inr Screen \<Rightarrow> (cs, ss @ [screen_of node])
          | _ \<Rightarrow> (cs, ss))"
proof -
  define S where "S = (node_type node = ''FRAME'' \<and>
               ((\<exists>p \<in> set [''page'', ''screen'', ''view'', ''layout'', ''container'',
                    ''section'', ''home'', ''dashboard'', ''profile'', ''settings''].
                    sublist p (toLowerCase nm)) \<or>
                (\<exists>w. box_width node = Some w \<and> w \<ge> 500) \<or>
                (\<exists>h. box_height node = Some h \<and> h \<ge> 500)))"
  obtain b where b: "isAtomicComponent node = Inr b"
    using name_Some_returns(1)[OF assms] by blast
  have s: "isScreenOrFrame node = Inr S"
    unfolding S_def by (rule isScreenOrFrame_named[OF assms])
  note c = determineComponentCategory_first_match[OF assms]
  have "classify node = Inr (if isAtomicComponent node = Inr True then Atomic
          else if S then Screen else Neither)
   \<and> visit node parentPath (cs, ss) =
     Inr (case classify node of
            Inr Atomic \<Rightarrow> (cs @ [component_of node parentPath (first_match (toLowerCase nm))], ss)
          | Inr Screen \<Rightarrow> (cs, ss @ [screen_of node])
          | _ \<Rightarrow> (cs, ss))"
    by (cases b; cases S) (simp_all add: classify_def visit_def b s c)
  then show ?thesis unfolding S_def .
qed

theorem classify_trichotomy_witness:
  "name (sized ''Home'' ''FRAME'' 800 1200 None) = Some ''Home''
   \<and> classify (sized ''Home'' ''FRAME'' 800 1200 None) = Inr Screen
   \<and> visit (sized ''Home'' ''FRAME'' 800 1200 None) [] ([], [])
       = Inr ([], [screen_of (sized ''Home'' ''FRAME'' 800 1200 None)])"
proof -
  have a: "isAtomicComponent (sized ''Home'' ''FRAME'' 800 1200 None) = Inr False"
    by (simp add: isAtomicComponent_def sized_def)
  have n: "name (sized ''Home'' ''FRAME'' 800 1200 None) = Some ''Home''"
    by (simp add: sized_def)
  have "classify (sized ''Home'' ''FRAME'' 800 1200 None) = Inr Screen"
    using classify_trichotomy [OF n, of "[]" "[]" "[]"]
    by (simp add: a lower_simps) (simp add: sized_simps)
  then show ?thesis
    using classify_trichotomy [OF n, of "[]" "[]" "[]"] n by simp
qed

text \<open>
  Claim C4. The category of a node with a name is the first row of the ordered table
  (statusbar, button, input or textfield, text, icon, image, avatar, badge, card, list, tab,
  modal) that matches the lower-cased name, and \<open>OTHER\<close> when no row matches: TextIcon is
  TEXT and IconButton is BUTTON.
\<close>

theorem category_first_match_wins:
  assumes "name node = Some nm"
  shows "determineComponentCategory node = Inr (first_match (toLowerCase nm))
   \<and> first_match (toLowerCase ''TextIcon'') = TEXT
   \<and> first_match (toLowerCase ''IconButton'') = BUTTON
   \<and> first_match (toLowerCase ''Divider'') = OTHER"
proof -
  have "first_match (toLowerCase ''TextIcon'') = TEXT"
    by (simp add: first_match_def category_table_def lower_simps sublist_eval)
  moreover have "first_match (toLowerCase ''IconButton'') = BUTTON"
    by (simp add: first_match_def category_table_def lower_simps sublist_eval)
  moreover have "first_match (toLowerCase ''Divider'') = OTHER"
    by (simp add: first_match_def category_table_def lower_simps sublist_eval)
  ultimately show ?thesis
    using determineComponentCategory_first_match[OF assms] by simp
qed

theorem category_first_match_wins_witness:
  "name (sized ''TextIcon'' ''COMPONENT'' 24 24 None) = Some ''TextIcon''
   \<and> determineComponentCategory (sized ''TextIcon'' ''COMPONENT'' 24 24 None) = Inr TEXT
   \<and> name (sized ''IconButton'' ''COMPONENT'' 24 24 None) = Some ''IconButton''
   \<and> determineComponentCategory (sized ''IconButton'' ''COMPONENT'' 24 24 None) = Inr BUTTON"
proof -
  have n: "name (sized ''TextIcon'' ''COMPONENT'' 24 24 None) = Some ''TextIcon''"
    "name (sized ''IconButton'' ''COMPONENT'' 24 24 None) = Some ''IconButton''"
    by (simp_all add: sized_def)
  show ?thesis
    using category_first_match_wins [OF n(1)] category_first_match_wins [OF n(2)] n
    by simp
qed


section \<open>The walk\<close>

lemmas walk_eval =
  sized_def visit_def isAtomicComponent_def isScreenOrFrame_def determineComponentCategory_def
  lower_simps atomicPatterns_def screenPatterns_def box_width_def box_height_def js_less_def
  js_ge_def

lemma visit_all_append:
  "visit_all (xs @ ys) st =
     (case visit_all xs st of Inl e \<Rightarrow> Inl e | Inr st' \<Rightarrow> visit_all ys st')"
  by (induction xs arbitrary: st) (simp_all split: sum.splits)

lemma walk_visit_all:
  "walk node pp st = visit_all (descriptors pp node) st"
  "walk_each kids pp st = visit_all (descriptors_each pp kids) st"
proof (induction node pp st and kids pp st rule: walk_walk_each.induct)
  case (1 nm i t b cs d bg op ef parentPath st)
  then show ?case by (simp split: sum.splits option.splits)
next
  case (2 parentPath st)
  then show ?case by simp
next
  case (3 child rest parentPath st)
  then show ?case by (simp add: visit_all_append split: sum.splits)
qed

lemma descriptors_preorder:
  "map fst (descriptors pp (node :: 'v node)) = preorder node"
  "map fst (descriptors_each pp (kids :: 'v node list)) = concat (map preorder kids)"
  by (induction pp node and pp kids rule: descriptors_descriptors_each.induct)
     (simp_all split: option.splits)

lemma visit_named:
  assumes "name node = Some nm"
  shows "visit node pp (cs, ss) =
     Inr (if classify node = Inr Atomic then (cs @ [record_of (node, pp)], ss)
          else if classify node = Inr Screen then (cs, ss @ [screen_of node])
          else (cs, ss))"
proof -
  obtain a s c where "isAtomicComponent node = Inr a" "isScreenOrFrame node = Inr s"
    "determineComponentCategory node = Inr c"
    using name_Some_returns[OF assms] by blast
  then show ?thesis
    by (cases a; cases s) (simp_all add: visit_def classify_def record_of_def)
qed

lemma visit_nameless: "name node = None \<Longrightarrow> visit node pp st = Inl TypeError"
  by (simp add: visit_def name_None_fails)

lemma visit_all_fails_iff:
  "(visit_all ds st = Inl TypeError) = (\<exists>d \<in> set ds. name (fst d) = None)"
proof (induction ds arbitrary: st)
  case Nil
  then show ?case by simp
next
  case (Cons d ds)
  show ?case
  proof (cases "name (fst d)")
    case None
    then show ?thesis by (simp add: visit_nameless)
  next
    case (Some nm)
    obtain cs ss where st: "st = (cs, ss)" by (cases st)
    show ?thesis using Cons.IH Some by (simp add: st visit_named[OF Some])
  qed
qed

lemma visit_all_error: "visit_all ds st = Inl e \<Longrightarrow> e = TypeError"
proof (induction ds arbitrary: st)
  case Nil
  then show ?case by simp
next
  case (Cons d ds)
  show ?case
  proof (cases "name (fst d)")
    case None
    then show ?thesis using Cons.prems by (simp add: visit_nameless)
  next
    case (Some nm)
    obtain cs ss where st: "st = (cs, ss)" by (cases st)
    show ?thesis using Cons.IH Cons.prems Some by (simp add: st visit_named[OF Some])
  qed
qed

lemma visit_all_result:
  assumes "visit_all ds (cs, ss) = Inr (cs', ss')"
  shows "cs' = cs @ map record_of (filter (\<lambda>d. classify (fst d) = Inr Atomic) ds)
       \<and> ss' = ss @ map (\<lambda>d. screen_of (fst d)) (filter (\<lambda>d. classify (fst d) = Inr Screen) ds)"
  using assms
proof (induction ds arbitrary: cs ss)
  case Nil
  then show ?case by simp
next
  case (Cons d ds)
  show ?case
  proof (cases "name (fst d)")
    case None
    then show ?thesis using Cons.prems by (simp add: visit_nameless)
  next
    case (Some nm)
    have v: "visit (fst d) (snd d) (cs, ss) =
     Inr (if classify (fst d) = Inr Atomic then (cs @ [record_of d], ss)
          else if classify (fst d) = Inr Screen then (cs, ss @ [screen_of (fst d)])
          else (cs, ss))"
      using visit_named[OF Some, of "snd d" cs ss] by simp
    show ?thesis using Cons.prems by (auto simp: v split: if_splits dest!: Cons.IH)
  qed
qed

lemma walk_fails_iff:
  "(walk node pp st = Inl TypeError) = (\<exists>n \<in> set (preorder node). name n = None)"
proof -
  have "(\<exists>d \<in> set (descriptors pp node). name (fst d) = None)
      = (\<exists>n \<in> set (map fst (descriptors pp node)). name n = None)"
    by (simp add: image_iff)
  then show ?thesis
    by (simp only: walk_visit_all(1) visit_all_fails_iff descriptors_preorder(1))
qed

lemma walk_returns_iff:
  "(\<exists>st'. walk node pp st = Inr st') = (\<forall>n \<in> set (preorder node). name n \<noteq> None)"
proof (cases "walk node pp st")
  case (Inl e)
  then have "e = TypeError" by (simp add: walk_visit_all(1) visit_all_error)
  then show ?thesis using Inl walk_fails_iff[of node pp st] by auto
next
  case (Inr st')
  then show ?thesis using walk_fails_iff[of node pp st] by auto
qed

lemma descriptors_sound:
  "d \<in> set (descriptors pp (r :: 'v node))
     \<Longrightarrow> \<exists>as. chain r as (fst d) \<and> snd d = pp @ map name as"
  "d \<in> set (descriptors_each pp (kids :: 'v node list))
     \<Longrightarrow> \<exists>k \<in> set kids. \<exists>as. chain k as (fst d) \<and> snd d = pp @ map name as"
proof (induction pp r and pp kids arbitrary: d and d rule: descriptors_descriptors_each.induct)
  case (1 ancestors nm i t b cs dsc bg op ef)
  let ?r = "Node nm i t b cs dsc bg op ef"
  show ?case
  proof (cases "d = (?r, ancestors)")
    case True
    then have "chain ?r [] (fst d) \<and> snd d = ancestors @ map name []" by simp
    then show ?thesis by blast
  next
    case False
    with "1.prems" obtain kids where kids: "cs = Some kids"
      and d: "d \<in> set (descriptors_each (ancestors @ [nm]) kids)"
      by (auto split: option.splits)
    from "1.IH"[OF kids d] obtain k as where k: "k \<in> set kids" "chain k as (fst d)"
      "snd d = (ancestors @ [nm]) @ map name as" by blast
    then have "chain ?r (?r # as) (fst d) \<and> snd d = ancestors @ map name (?r # as)"
      using kids by (auto simp: kids_of_def list_ex_iff)
    then show ?thesis by blast
  qed
next
  case (2 ancestors)
  then show ?case by simp
next
  case (3 ancestors k ks)
  then show ?case by (auto simp del: descriptors.simps)
qed

lemma descriptors_complete:
  "chain r as n \<Longrightarrow> (n, pp @ map name as) \<in> set (descriptors pp r)"
proof (induction as arbitrary: r pp)
  case Nil
  then show ?case by (cases r) simp
next
  case (Cons a as)
  then obtain k where a: "a = r" and k: "k \<in> set (kids_of r)" "chain k as n"
    by (auto simp: list_ex_iff)
  from Cons.IH[OF k(2), of "pp @ [name r]"]
  have in_k: "(n, pp @ map name (a # as)) \<in> set (descriptors (pp @ [name r]) k)"
    using a by simp
  have each: "k \<in> set ks \<Longrightarrow> set (descriptors q k) \<subseteq> set (descriptors_each q ks)" for q ks
    by (induction ks) auto
  obtain kids where kids: "children r = Some kids" "k \<in> set kids"
    using k(1) by (cases "children r") (simp_all add: kids_of_def)
  then show ?case
    using in_k each[OF kids(2), of "pp @ [name r]"] by (cases r) auto
qed

lemma descriptors_set:
  "set (descriptors pp r) = {(n, pp @ map name as) | n as. chain r as n}"
proof (intro set_eqI iffI)
  fix d assume "d \<in> set (descriptors pp r)"
  from descriptors_sound(1)[OF this] obtain as where "chain r as (fst d)"
    "snd d = pp @ map name as" by blast
  then show "d \<in> {(n, pp @ map name as) | n as. chain r as n}"
    by (cases d) auto
next
  fix d assume "d \<in> {(n, pp @ map name as) | n as. chain r as n}"
  then show "d \<in> set (descriptors pp r)"
    using descriptors_complete by auto
qed

lemma home_screen_walk:
  "walk home_screen [] ([], []) =
    Inr ([component_of (sized ''PrimaryButton'' ''COMPONENT'' 120 40 None)
            [Some ''HomeScreen''] BUTTON,
          component_of (sized ''UserAvatar'' ''COMPONENT'' 48 48 None)
            [Some ''HomeScreen''] AVATAR],
         [screen_of home_screen])"
  by (simp add: home_screen_def walk_eval)

lemma nested_card_walk:
  "walk nested_card [] ([], []) =
    Inr ([component_of (sized ''Card'' ''COMPONENT'' 300 200
                (Some [sized ''IconButton'' ''INSTANCE'' 40 40
                         (Some [sized ''Icon'' ''COMPONENT'' 16 16 None])]))
            [Some ''Checkout Screen''] CARD,
          component_of (sized ''IconButton'' ''INSTANCE'' 40 40
                         (Some [sized ''Icon'' ''COMPONENT'' 16 16 None]))
            [Some ''Checkout Screen'', Some ''Card''] BUTTON,
          component_of (sized ''Icon'' ''COMPONENT'' 16 16 None)
            [Some ''Checkout Screen'', Some ''Card'', Some ''IconButton''] ICON],
         [screen_of nested_card])"
  by (simp add: nested_card_def walk_eval)

text \<open>
  Claim C5. \<^verbatim>\<open>walk\<close> handles the nodes of the tree one by one in depth-first pre-order:
  it is the sequential run of the per-node step over the specification's descriptor list,
  which lists every node once, a parent before its children and siblings in their order.
  A node with no \<^verbatim>\<open>children\<close> or an empty list is a leaf: the walk is the step on that
  node alone. The run reaches the end exactly when every node has a name (a node without
  one throws). The descriptors are the nodes reachable from the root by child links, each
  with the names along its chain of strict ancestors, root first; the path of a component
  record is those names followed by the node's own name.
\<close>

theorem walk_preorder_once:
  "walk node parentPath st = visit_all (descriptors parentPath node) st
   \<and> map fst (descriptors parentPath node) = preorder node
   \<and> set (descriptors parentPath node)
       = {(n, parentPath @ map name as) | n as. chain node as n}
   \<and> (\<exists>st'. walk node parentPath st = Inr st') = list_all (\<lambda>n. name n \<noteq> None) (preorder node)
   \<and> walk (Node nm i t b None d bg op ef) parentPath st
       = visit (Node nm i t b None d bg op ef) parentPath st
   \<and> walk (Node nm i t b (Some []) d bg op ef) parentPath st
       = visit (Node nm i t b (Some []) d bg op ef) parentPath st
   \<and> (\<forall>cs ss. walk node parentPath st = Inr (cs, ss) \<longrightarrow>
        map c_path cs = map c_path (fst st)
          @ map (\<lambda>d. snd d @ [name (fst d)])
              (filter (\<lambda>d. isAtomicComponent (fst d) = Inr True)
                 (descriptors parentPath node)))"
proof -
  have atomic: "(\<lambda>d :: 'a node \<times> string option list. classify (fst d) = Inr Atomic)
      = (\<lambda>d. isAtomicComponent (fst d) = Inr True)"
    by (auto simp: classify_def fun_eq_iff split: sum.splits bool.splits)
  have path: "map c_path cs = map c_path (fst st)
          @ map (\<lambda>d. snd d @ [name (fst d)])
              (filter (\<lambda>d. isAtomicComponent (fst d) = Inr True)
                 (descriptors parentPath node))"
    if "walk node parentPath st = Inr (cs, ss)" for cs ss
  proof -
    from that have "visit_all (descriptors parentPath node) (fst st, snd st) = Inr (cs, ss)"
      by (simp add: walk_visit_all(1))
    from visit_all_result[OF this] show ?thesis
      by (simp add: atomic record_of_def component_of_def comp_def)
  qed
  have leaf: "walk (Node nm i t b None d bg op ef) parentPath st
       = visit (Node nm i t b None d bg op ef) parentPath st"
    "walk (Node nm i t b (Some []) d bg op ef) parentPath st
       = visit (Node nm i t b (Some []) d bg op ef) parentPath st"
    by (simp_all split: sum.splits)
  show ?thesis
    using path leaf descriptors_set[of parentPath node] walk_returns_iff[of node parentPath st]
    by (simp add: walk_visit_all(1) descriptors_preorder(1) list_all_iff)
qed

theorem walk_preorder_once_witness:
  "walk home_screen [] ([], [])
     = Inr ([component_of (sized ''PrimaryButton'' ''COMPONENT'' 120 40 None)
               [Some ''HomeScreen''] BUTTON,
             component_of (sized ''UserAvatar'' ''COMPONENT'' 48 48 None)
               [Some ''HomeScreen''] AVATAR],
            [screen_of home_screen])
   \<and> map c_path [component_of (sized ''PrimaryButton'' ''COMPONENT'' 120 40 None)
               [Some ''HomeScreen''] BUTTON,
             component_of (sized ''UserAvatar'' ''COMPONENT'' 48 48 None)
               [Some ''HomeScreen''] AVATAR]
     = map (\<lambda>d. snd d @ [name (fst d)])
         (filter (\<lambda>d. isAtomicComponent (fst d) = Inr True) (descriptors [] home_screen))
   \<and> map fst (descriptors [] home_screen) = preorder home_screen"
  using walk_preorder_once [of home_screen "[]" "([], [])"] home_screen_walk
  by simp


text \<open>
  Claim C9. Each of \<^verbatim>\<open>isAtomicComponent\<close>, \<^verbatim>\<open>isScreenOrFrame\<close> and
  \<^verbatim>\<open>determineComponentCategory\<close> returns exactly when the node has a name and throws a
  TypeError exactly when it has none; the walk throws exactly when some node of the tree
  has no name. A missing bounding box or a missing \<^verbatim>\<open>children\<close> raises nothing: the size
  tests are false, the walk treats the node as a leaf and the child count is 0.
\<close>

theorem classification_total_iff_named:
  "(\<exists>b. isAtomicComponent node = Inr b) = (name node \<noteq> None)
   \<and> (isAtomicComponent node = Inl TypeError) = (name node = None)
   \<and> (\<exists>b. isScreenOrFrame node = Inr b) = (name node \<noteq> None)
   \<and> (isScreenOrFrame node = Inl TypeError) = (name node = None)
   \<and> (\<exists>c. determineComponentCategory node = Inr c) = (name node \<noteq> None)
   \<and> (determineComponentCategory node = Inl TypeError) = (name node = None)
   \<and> (walk node parentPath st = Inl TypeError) = (\<exists>n \<in> set (preorder node). name n = None)
   \<and> (\<exists>st'. walk node parentPath st = Inr st') = (\<forall>n \<in> set (preorder node). name n \<noteq> None)
   \<and> walk (Node None i t b cs d bg op ef) parentPath st = Inl TypeError
   \<and> isAtomicComponent (Node (Some nm) i t None cs d bg op ef)
       = Inr ((t = ''COMPONENT'' \<or> t = ''INSTANCE'')
              \<and> (\<exists>p \<in> set atomicPatterns. sublist p (toLowerCase nm)))
   \<and> isScreenOrFrame (Node (Some nm) i t None cs d bg op ef)
       = Inr (t = ''FRAME'' \<and> (\<exists>p \<in> set screenPatterns. sublist p (toLowerCase nm)))
   \<and> walk (Node (Some nm) i t b None d bg op ef) parentPath st
       = visit (Node (Some nm) i t b None d bg op ef) parentPath st
   \<and> c_children (component_of (Node (Some nm) i t b None d bg op ef) parentPath cat) = 0"
proof -
  have total: "(\<exists>b. isAtomicComponent node = Inr b) = (name node \<noteq> None)"
    "(isAtomicComponent node = Inl TypeError) = (name node = None)"
    "(\<exists>b. isScreenOrFrame node = Inr b) = (name node \<noteq> None)"
    "(isScreenOrFrame node = Inl TypeError) = (name node = None)"
    "(\<exists>c. determineComponentCategory node = Inr c) = (name node \<noteq> None)"
    "(determineComponentCategory node = Inl TypeError) = (name node = None)"
    by (cases "name node";
        simp add: isAtomicComponent_def isScreenOrFrame_def determineComponentCategory_def Let_def)+
  have nameless: "walk (Node None i t b cs d bg op ef) parentPath st = Inl TypeError"
    by (simp add: visit_nameless)
  have nobox: "isAtomicComponent (Node (Some nm) i t None cs d bg op ef)
       = Inr ((t = ''COMPONENT'' \<or> t = ''INSTANCE'')
              \<and> (\<exists>p \<in> set atomicPatterns. sublist p (toLowerCase nm)))"
    "isScreenOrFrame (Node (Some nm) i t None cs d bg op ef)
       = Inr (t = ''FRAME'' \<and> (\<exists>p \<in> set screenPatterns. sublist p (toLowerCase nm)))"
    by (simp_all add: isAtomicComponent_def isScreenOrFrame_def Let_def box_width_def
        box_height_def js_less_def js_ge_def list_ex_iff str_includes_sublist)
  have leaf: "walk (Node (Some nm) i t b None d bg op ef) parentPath st
       = visit (Node (Some nm) i t b None d bg op ef) parentPath st"
    by (simp split: sum.splits)
  have count: "c_children (component_of (Node (Some nm) i t b None d bg op ef) parentPath cat) = 0"
    by (simp add: component_of_def)
  show ?thesis
    using total nameless nobox leaf count
      walk_fails_iff[of node parentPath st] walk_returns_iff[of node parentPath st]
    by blast
qed

theorem classification_total_iff_named_witness:
  "isAtomicComponent (Node None None ''COMPONENT'' None None None (None :: unit option) None None)
     = Inl TypeError
   \<and> walk (sized ''Page'' ''FRAME'' 800 600
        (Some [Node None None ''COMPONENT'' None None None None None None])) [] ([], [])
     = Inl TypeError
   \<and> (\<exists>st'. walk home_screen [] ([], []) = Inr st')
   \<and> list_all (\<lambda>n. name n \<noteq> None) (preorder home_screen)"
proof -
  have 1: "isAtomicComponent (Node None None ''COMPONENT'' None None None (None :: unit option)
      None None) = Inl TypeError"
    using classification_total_iff_named
      [of "Node None None ''COMPONENT'' None None None (None :: unit option) None None"]
    by simp
  have 2: "walk (sized ''Page'' ''FRAME'' 800 600
        (Some [Node None None ''COMPONENT'' None None None None None None])) [] ([], [])
     = Inl TypeError"
    using classification_total_iff_named
      [of "sized ''Page'' ''FRAME'' 800 600
        (Some [Node None None ''COMPONENT'' None None None None None None])" "[]" "([], [])"]
    by (simp add: sized_def)
  have 3: "(\<exists>st'. walk home_screen [] ([], []) = Inr st')
      \<and> (\<forall>n \<in> set (preorder home_screen). name n \<noteq> None)"
    using classification_total_iff_named [of home_screen "[]" "([], [])"] home_screen_walk
    by simp
  show ?thesis using 1 2 3 by (simp add: list_all_iff)
qed

text \<open>
  Claim C10. The walk descends into the children of every node, whatever the node was
  classified as: the catalogue is the records of all atomic nodes of the tree and the
  screen list the records of all screen nodes, both in pre-order, so an atomic node below
  an atomic node or below a screen has its own record.
\<close>

theorem catalogue_in_preorder:
  assumes "walk node parentPath (cs, ss) = Inr (cs', ss')"
  shows "cs' = cs @ map record_of
                 (filter (\<lambda>d. classify (fst d) = Inr Atomic) (descriptors parentPath node))
   \<and> ss' = ss @ map (\<lambda>d. screen_of (fst d))
                 (filter (\<lambda>d. classify (fst d) = Inr Screen) (descriptors parentPath node))
   \<and> (\<forall>d \<in> set (descriptors parentPath node).
         classify (fst d) = Inr Atomic \<longrightarrow> record_of d \<in> set cs')
   \<and> (\<forall>kids. children node = Some kids \<longrightarrow>
         set (descriptors_each (parentPath @ [name node]) kids)
           \<subseteq> set (descriptors parentPath node))"
proof -
  from assms have "visit_all (descriptors parentPath node) (cs, ss) = Inr (cs', ss')"
    by (simp add: walk_visit_all(1))
  from visit_all_result[OF this]
  have r: "cs' = cs @ map record_of
                 (filter (\<lambda>d. classify (fst d) = Inr Atomic) (descriptors parentPath node))"
    "ss' = ss @ map (\<lambda>d. screen_of (fst d))
                 (filter (\<lambda>d. classify (fst d) = Inr Screen) (descriptors parentPath node))"
    by simp_all
  have m: "\<forall>d \<in> set (descriptors parentPath node).
         classify (fst d) = Inr Atomic \<longrightarrow> record_of d \<in> set cs'"
    by (subst r(1)) auto
  have k: "\<forall>kids. children node = Some kids \<longrightarrow>
         set (descriptors_each (parentPath @ [name node]) kids)
           \<subseteq> set (descriptors parentPath node)"
    by (cases node) auto
  show ?thesis using r m k by blast
qed

theorem catalogue_in_preorder_witness:
  "walk nested_card [] ([], []) =
    Inr ([component_of (sized ''Card'' ''COMPONENT'' 300 200
                (Some [sized ''IconButton'' ''INSTANCE'' 40 40
                         (Some [sized ''Icon'' ''COMPONENT'' 16 16 None])]))
            [Some ''Checkout Screen''] CARD,
          component_of (sized ''IconButton'' ''INSTANCE'' 40 40
                         (Some [sized ''Icon'' ''COMPONENT'' 16 16 None]))
            [Some ''Checkout Screen'', Some ''Card''] BUTTON,
          component_of (sized ''Icon'' ''COMPONENT'' 16 16 None)
            [Some ''Checkout Screen'', Some ''Card'', Some ''IconButton''] ICON],
         [screen_of nested_card])
   \<and> [component_of (sized ''Card'' ''COMPONENT'' 300 200
                (Some [sized ''IconButton'' ''INSTANCE'' 40 40
                         (Some [sized ''Icon'' ''COMPONENT'' 16 16 None])]))
            [Some ''Checkout Screen''] CARD,
          component_of (sized ''IconButton'' ''INSTANCE'' 40 40
                         (Some [sized ''Icon'' ''COMPONENT'' 16 16 None]))
            [Some ''Checkout Screen'', Some ''Card''] BUTTON,
          component_of (sized ''Icon'' ''COMPONENT'' 16 16 None)
            [Some ''Checkout Screen'', Some ''Card'', Some ''IconButton''] ICON]
      = map record_of
          (filter (\<lambda>d. classify (fst d) = Inr Atomic) (descriptors [] nested_card))
   \<and> [screen_of nested_card]
      = map (\<lambda>d. screen_of (fst d))
          (filter (\<lambda>d. classify (fst d) = Inr Screen) (descriptors [] nested_card))"
  using catalogue_in_preorder [OF nested_card_walk] nested_card_walk
  by simp


section \<open>Registry matching\<close>

lemma in_image_list_ex: "(x \<in> f ` set ys) = list_ex (\<lambda>y. f y = x) ys"
  by (auto simp: list_ex_iff)

lemma existingComponents_eq:
  "existingComponents an cat =
     (if cat \<noteq> [] \<and> a_existing an = None then Inl TypeError
      else Inr (filter (\<lambda>c. c_name c \<in> oracle_existing_names an) cat))"
  by (auto simp: existingComponents_def oracle_existing_names_def in_image_list_ex
      split: option.splits)

lemma newOfAnalysis_eq:
  "newOfAnalysis an cat =
     (if cat \<noteq> [] \<and> a_new an = None then Inl TypeError
      else Inr (filter (\<lambda>c. c_name c \<in> oracle_new_names an) cat))"
  by (auto simp: newOfAnalysis_def oracle_new_names_def in_image_list_ex
      split: option.splits)

lemma filters_partition_iff:
  "(mset (filter P xs) + mset (filter Q xs) = mset xs) = (\<forall>x \<in> set xs. P x \<noteq> Q x)"
proof
  assume eq: "mset (filter P xs) + mset (filter Q xs) = mset xs"
  show "\<forall>x \<in> set xs. P x \<noteq> Q x"
  proof
    fix x assume x: "x \<in> set xs"
    then have pos: "count (mset xs) x > 0" by simp
    have "count (mset (filter P xs) + mset (filter Q xs)) x = count (mset xs) x"
      using eq by simp
    then have "(if P x then count (mset xs) x else 0) + (if Q x then count (mset xs) x else 0)
        = count (mset xs) x"
      by simp
    with pos show "P x \<noteq> Q x" by (auto split: if_splits)
  qed
next
  assume "\<forall>x \<in> set xs. P x \<noteq> Q x"
  then show "mset (filter P xs) + mset (filter Q xs) = mset xs"
    by (induction xs) auto
qed

lemma filters_disjoint_iff:
  "(set (filter P xs) \<inter> set (filter Q xs) = {}) = (\<forall>x \<in> set xs. \<not> (P x \<and> Q x))"
  by auto

lemmas record_eval = button_record_def avatar_record_def lowercase_button_def component_of_def
  sized_def

text \<open>
  Claim C1, as the code has it. The two filters follow the oracle's lists and nothing else:
  a catalogue component is in \<open>existing\<close> exactly when the oracle's \<open>existing\<close> list has its
  name and in \<open>new\<close> exactly when the oracle's \<open>new\<close> list has it, in catalogue order. So
  the two lists partition the catalogue exactly when the oracle puts every catalogue name
  in exactly one of its lists, and they are disjoint exactly when it puts none in both. A
  list missing from the answer is a TypeError as soon as the catalogue is not empty.
\<close>

theorem partition_follows_oracle:
  "existingComponents an cat =
     (if cat \<noteq> [] \<and> a_existing an = None then Inl TypeError
      else Inr (filter (\<lambda>c. c_name c \<in> oracle_existing_names an) cat))
   \<and> newOfAnalysis an cat =
     (if cat \<noteq> [] \<and> a_new an = None then Inl TypeError
      else Inr (filter (\<lambda>c. c_name c \<in> oracle_new_names an) cat))
   \<and> (mset (filter (\<lambda>c. c_name c \<in> oracle_existing_names an) cat)
        + mset (filter (\<lambda>c. c_name c \<in> oracle_new_names an) cat) = mset cat)
     = (\<forall>c \<in> set cat. (c_name c \<in> oracle_existing_names an) \<noteq> (c_name c \<in> oracle_new_names an))
   \<and> (set (filter (\<lambda>c. c_name c \<in> oracle_existing_names an) cat)
        \<inter> set (filter (\<lambda>c. c_name c \<in> oracle_new_names an) cat) = {})
     = (\<forall>c \<in> set cat. \<not> (c_name c \<in> oracle_existing_names an \<and> c_name c \<in> oracle_new_names an))"
  using existingComponents_eq[of an cat] newOfAnalysis_eq[of an cat]
    filters_partition_iff[of "\<lambda>c. c_name c \<in> oracle_existing_names an" cat
      "\<lambda>c. c_name c \<in> oracle_new_names an"]
    filters_disjoint_iff[of "\<lambda>c. c_name c \<in> oracle_existing_names an" cat
      "\<lambda>c. c_name c \<in> oracle_new_names an"]
  by (intro conjI) assumption+

theorem partition_follows_oracle_witness:
  "existingComponents matching_analysis [button_record, avatar_record] = Inr [button_record]
   \<and> newOfAnalysis matching_analysis [button_record, avatar_record] = Inr [avatar_record]
   \<and> mset [button_record] + mset [avatar_record] = mset [button_record, avatar_record]
   \<and> (c_name button_record \<in> oracle_existing_names matching_analysis)
       \<noteq> (c_name button_record \<in> oracle_new_names matching_analysis)
   \<and> (c_name avatar_record \<in> oracle_existing_names matching_analysis)
       \<noteq> (c_name avatar_record \<in> oracle_new_names matching_analysis)"
proof -
  have f: "filter (\<lambda>c. c_name c \<in> oracle_existing_names matching_analysis)
             [button_record, avatar_record] = [button_record]"
    "filter (\<lambda>c. c_name c \<in> oracle_new_names matching_analysis)
             [button_record, avatar_record] = [avatar_record]"
    by (simp_all add: oracle_existing_names_def oracle_new_names_def matching_analysis_def
        record_eval)
  have e: "a_existing matching_analysis \<noteq> None" "a_new matching_analysis \<noteq> None"
    by (simp_all add: matching_analysis_def)
  note t = partition_follows_oracle [of matching_analysis "[button_record, avatar_record]",
      unfolded f]
  have m: "mset [button_record] + mset [avatar_record] = mset [button_record, avatar_record]"
    by simp
  show ?thesis
    using t e m by simp
qed

theorem partition_counterexample:
  "existingComponents silent_analysis [button_record] = Inr []
   \<and> newOfAnalysis silent_analysis [button_record] = Inr []
   \<and> existingComponents doubling_analysis [button_record] = Inr [button_record]
   \<and> newOfAnalysis doubling_analysis [button_record] = Inr [button_record]"
  by (simp add: existingComponents_def newOfAnalysis_def silent_analysis_def
      doubling_analysis_def record_eval)




section \<open>The report\<close>

lemma fetch_tree_returns:
  "(case get (page + n) of Inl e \<Rightarrow> True | Inr data \<Rightarrow> data = [])
     \<Longrightarrow> \<exists>r. fetch_tree get page acc = Some r"
proof (induction n arbitrary: page acc)
  case 0
  then show ?case by (subst fetch_tree.simps) (auto split: sum.splits)
next
  case (Suc n)
  have "\<exists>r. fetch_tree get (page + 1) (acc @ data) = Some r" for data
    using Suc.IH[of "page + 1" "acc @ data"] Suc.prems by simp
  then show ?case by (subst fetch_tree.simps) (auto split: sum.splits)
qed

lemma not_listed_iff:
  "(p \<notin> file_path ` set allFiles) = (find (\<lambda>file. file_path file = p) allFiles = None)"
  by (auto simp: find_None_iff)

lemma find_registry_None:
  "(find_registry ps allFiles = None) = (\<forall>p \<in> set ps. p \<notin> file_path ` set allFiles)"
  by (induction ps) (simp_all add: not_listed_iff split: option.splits)

lemma registry_check_Inr:
  assumes "registry_check env info comps screens listing = Inr rep"
  shows "r_screens rep = screens \<and> r_fileInfo rep = info \<and>
     (case r_analysis rep of
        None \<Rightarrow> r_existing rep = [] \<and> r_new rep = comps
      | Some an \<Rightarrow> existingComponents an comps = Inr (r_existing rep)
                 \<and> newOfAnalysis an comps = Inr (r_new rep))"
  using assms
  by (auto simp: registry_check_def split: sum.splits option.splits)

lemma parse_and_check_responds:
  assumes "case tree_page env (1 + n) of Inl e \<Rightarrow> True | Inr data \<Rightarrow> data = []"
  shows "\<exists>resp. parse_and_check env = Some resp"
proof -
  obtain r where "fetch_tree (tree_page env) 1 [] = Some r"
    using fetch_tree_returns[of "tree_page env" 1 n "[]"] assms by blast
  then show ?thesis
    by (simp add: parse_and_check_def split: sum.splits)
qed

lemma five_components_extract:
  "extractAllNestedComponents five_components = Inr (five_records, [])"
  by (simp add: extractAllNestedComponents_def five_components_def five_records_def walk_eval)

lemma home_screen_extract:
  "extractAllNestedComponents home_screen
     = Inr ([button_record, avatar_record], [screen_of home_screen])"
  using home_screen_walk
  by (simp add: extractAllNestedComponents_def button_record_def avatar_record_def)

lemma two_pages_fetch:
  "fetch_tree two_pages 1 []
     = Some (Inr [\<lparr> file_path = ''README.md'' \<rparr>, \<lparr> file_path = ''src/registry.ts'' \<rparr>])"
  by (simp add: fetch_tree.simps two_pages_def)

text \<open>
  Claim C6. When the document was read and the registry text cannot be had (the tree
  listing fails, none of the registry paths is in the listing, or the request for the file
  fails), the handler answers with a report whose \<open>existing\<close> list is empty and whose
  \<open>new\<close> list is the whole catalogue, without an analysis, and with the message that the
  registry file was not found or that GitLab access failed (then with the error attached).
\<close>

theorem registry_unavailable_all_new:
  assumes "fileResponse env = Inr info"
    and "nodeData env = Inr document"
    and "extractAllNestedComponents document = Inr (comps, screens)"
    and "fetch_tree (tree_page env) 1 [] = Some listing"
    and "(\<exists>e. listing = Inl e)
       \<or> (\<exists>allFiles. listing = Inr allFiles
            \<and> (\<forall>p \<in> set possibleRegistryPaths. p \<notin> file_path ` set allFiles))
       \<or> (\<exists>allFiles registryFile e. listing = Inr allFiles
            \<and> find_registry possibleRegistryPaths allFiles = Some registryFile
            \<and> registry_raw env (file_path registryFile) = Inl e)"
  shows "\<exists>rep. parse_and_check env = Some (Success rep)
     \<and> r_existing rep = [] \<and> r_new rep = comps \<and> r_screens rep = screens
     \<and> r_analysis rep = None
     \<and> (r_message rep = ''Registry file not found in repository''
        \<or> (r_message rep = ''GitLab API access failed, returning all components as new''
           \<and> r_gitlabError rep \<noteq> None))"
proof -
  have nf: "find_registry possibleRegistryPaths allFiles = None"
    if "\<forall>p \<in> set possibleRegistryPaths. p \<notin> file_path ` set allFiles" for allFiles
    using that by (simp only: find_registry_None)
  from assms(5) show ?thesis
  proof (elim disjE exE conjE)
    fix e
    assume "listing = Inl e"
    then show ?thesis
      using assms(1-4)
      by (simp add: parse_and_check_def registry_check_def without_registry_check_def)
  next
    fix allFiles
    assume "listing = Inr allFiles"
      and "\<forall>p \<in> set possibleRegistryPaths. p \<notin> file_path ` set allFiles"
    then show ?thesis
      using assms(1-4) nf[of allFiles]
      by (simp add: parse_and_check_def registry_check_def)
  next
    fix allFiles registryFile e
    assume "listing = Inr allFiles"
      and "find_registry possibleRegistryPaths allFiles = Some registryFile"
      and "registry_raw env (file_path registryFile) = Inl e"
    then show ?thesis
      using assms(1-4)
      by (simp add: parse_and_check_def registry_check_def without_registry_check_def)
  qed
qed

theorem registry_unavailable_all_new_witness:
  "(\<exists>rep. parse_and_check env_unreachable = Some (Success rep)
      \<and> r_existing rep = [] \<and> r_new rep = five_records \<and> r_analysis rep = None
      \<and> (r_message rep = ''Registry file not found in repository''
        \<or> (r_message rep = ''GitLab API access failed, returning all components as new''
           \<and> r_gitlabError rep \<noteq> None)))
   \<and> length five_records = 5
   \<and> extractAllNestedComponents five_components = Inr (five_records, [])"
proof -
  have 1: "fileResponse env_unreachable = Inr example_info"
    and 2: "nodeData env_unreachable = Inr five_components"
    and 4: "fetch_tree (tree_page env_unreachable) 1 []
              = Some (Inl (RequestError (Some 401) ''Request failed with status code 401''))"
    by (simp_all add: env_unreachable_def fetch_tree.simps)
  have 5: "(\<exists>e. (Inl (RequestError (Some 401) ''Request failed with status code 401'')
                  :: error + repo_file list) = Inl e)
       \<or> (\<exists>allFiles. Inl (RequestError (Some 401) ''Request failed with status code 401'')
              = Inr allFiles
            \<and> (\<forall>p \<in> set possibleRegistryPaths. p \<notin> file_path ` set allFiles))
       \<or> (\<exists>allFiles registryFile e.
              Inl (RequestError (Some 401) ''Request failed with status code 401'')
                = Inr allFiles
            \<and> find_registry possibleRegistryPaths allFiles = Some registryFile
            \<and> registry_raw env_unreachable (file_path registryFile) = Inl e)"
    by simp
  have "\<exists>rep. parse_and_check env_unreachable = Some (Success rep)
      \<and> r_existing rep = [] \<and> r_new rep = five_records \<and> r_analysis rep = None
      \<and> (r_message rep = ''Registry file not found in repository''
        \<or> (r_message rep = ''GitLab API access failed, returning all components as new''
           \<and> r_gitlabError rep \<noteq> None))"
    using registry_unavailable_all_new [OF 1 2 five_components_extract 4 5] by blast
  moreover have "length five_records = 5"
    by (simp add: five_records_def)
  ultimately show ?thesis
    using five_components_extract by blast
qed


section \<open>The two registry checks of the single-component endpoint\<close>

lemma componentExists_case_sensitive:
  "componentExists registryContent componentName = sublist componentName registryContent"
  by (simp add: componentExists_def str_includes_sublist)

lemma newComponents_case_insensitive:
  assumes "newComponents registryContent figmaComponents = Inr fresh"
  shows "fresh = filter (\<lambda>c. \<exists>nm. c_name c = Some nm
                    \<and> \<not> sublist (toLowerCase nm) (toLowerCase registryContent))
                 figmaComponents"
  using assms
  by (induction figmaComponents arbitrary: fresh)
     (auto simp: str_includes_sublist split: option.splits sum.splits if_splits)

text \<open>
  Claim C7. The bulk filter compares lower-cased name and lower-cased registry text, but
  the single-component check is \<^verbatim>\<open>registryContent.includes(componentName)\<close> on the
  texts as they are. For the registry text below, the name \<open>primarybutton\<close> is reported
  as not found by the single check although its lower-cased form occurs in the lower-cased
  registry text, and the bulk filter of the same call does not list it as new.
\<close>

theorem check_component_case_divergence:
  "check_component ''export { PrimaryButton } from ./PrimaryButton'' ''primarybutton''
       [lowercase_button]
     = Inr \<lparr> cr_exists = False, cr_message = ''Component not found in registry'',
             cr_newComponents = [] \<rparr>
   \<and> sublist (toLowerCase ''primarybutton'')
         (toLowerCase ''export { PrimaryButton } from ./PrimaryButton'')"
  by (simp add: check_component_def componentExists_def record_eval lower_simps sublist_eval)

section \<open>What a response accounts for\<close>

lemma registry_check_report:
  assumes "registry_check env info comps screens listing = Inr rep"
  shows "r_screens rep = screens \<and> r_fileInfo rep = info \<and>
     (case r_analysis rep of
        None \<Rightarrow> r_existing rep = [] \<and> r_new rep = comps
      | Some an \<Rightarrow>
          r_existing rep = filter (\<lambda>c. c_name c \<in> oracle_existing_names an) comps
        \<and> r_new rep = filter (\<lambda>c. c_name c \<in> oracle_new_names an) comps)"
proof -
  from registry_check_Inr[OF assms] show ?thesis
    by (auto simp: existingComponents_eq newOfAnalysis_eq split: option.splits if_splits)
qed

lemma without_registry_check_report:
  "r_screens (without_registry_check info comps screens e) = screens
   \<and> r_fileInfo (without_registry_check info comps screens e) = info
   \<and> r_analysis (without_registry_check info comps screens e) = None
   \<and> r_existing (without_registry_check info comps screens e) = []
   \<and> r_new (without_registry_check info comps screens e) = comps"
  by (simp add: without_registry_check_def)


lemma listed_registry:
  "find_registry possibleRegistryPaths
     [\<lparr> file_path = ''README.md'' \<rparr>, \<lparr> file_path = ''src/registry.ts'' \<rparr>]
     = Some \<lparr> file_path = ''src/registry.ts'' \<rparr>"
  by (simp add: possibleRegistryPaths_def)

lemma env_with_response:
  assumes "existingComponents an [button_record, avatar_record] = Inr ex"
    and "newOfAnalysis an [button_record, avatar_record] = Inr nw"
  shows "parse_and_check (env_with an) =
     Some (Success \<lparr> r_message = ''Components parsed and checked successfully'',
                     r_availablePaths = None,
                     r_existing = ex,
                     r_new = nw,
                     r_analysis = Some an,
                     r_screens = [screen_of home_screen],
                     r_fileInfo = example_info,
                     r_gitlabError = None \<rparr>)"
proof -
  have env: "fileResponse (env_with an) = Inr example_info"
    "nodeData (env_with an) = Inr home_screen"
    "tree_page (env_with an) = two_pages"
    "registry_raw (env_with an) ''src/registry.ts''
       = Inr ''export { PrimaryButton } from ./PrimaryButton''"
    "fuzzy_oracle (env_with an) ''export { PrimaryButton } from ./PrimaryButton''
       (map c_name [button_record, avatar_record]) = Inr an"
    by (simp_all add: env_with_def)
  have check: "registry_check (env_with an) example_info [button_record, avatar_record]
      [screen_of home_screen]
      (Inr [\<lparr> file_path = ''README.md'' \<rparr>, \<lparr> file_path = ''src/registry.ts'' \<rparr>])
    = Inr \<lparr> r_message = ''Components parsed and checked successfully'',
                     r_availablePaths = None,
                     r_existing = ex,
                     r_new = nw,
                     r_analysis = Some an,
                     r_screens = [screen_of home_screen],
                     r_fileInfo = example_info,
                     r_gitlabError = None \<rparr>"
    unfolding registry_check_def
    by (simp only: sum.case option.case listed_registry env assms repo_file.simps)
  show ?thesis
    unfolding parse_and_check_def
    by (simp only: env sum.case option.case home_screen_extract two_pages_fetch fst_conv
        snd_conv check)
qed

text \<open>
  Claim C8, as the code has it. A response is either the terminal error, which carries no
  component list, or a report with the full screen list. A report made without an analysis
  (registry not found, or a failure after the document was read) has every catalogue
  component in \<open>new\<close>. A report made from an analysis has in \<open>existing\<close> and \<open>new\<close> the
  catalogue components the oracle's two lists name: a catalogue component is in the report
  exactly when the oracle names it.
\<close>

theorem response_error_or_report:
  assumes "parse_and_check env = Some resp"
  shows "(\<exists>err. resp = Failure500 err
            \<and> (fileResponse env = Inl err \<or> nodeData env = Inl err
               \<or> (\<exists>document. nodeData env = Inr document
                     \<and> extractAllNestedComponents document = Inl err)))
   \<or> (\<exists>rep info document comps screens.
          resp = Success rep \<and> fileResponse env = Inr info \<and> nodeData env = Inr document
        \<and> extractAllNestedComponents document = Inr (comps, screens)
        \<and> r_screens rep = screens \<and> r_fileInfo rep = info
        \<and> (case r_analysis rep of
              None \<Rightarrow> r_existing rep = [] \<and> r_new rep = comps
            | Some an \<Rightarrow>
                r_existing rep = filter (\<lambda>c. c_name c \<in> oracle_existing_names an) comps
              \<and> r_new rep = filter (\<lambda>c. c_name c \<in> oracle_new_names an) comps
              \<and> (\<forall>c \<in> set comps.
                    (c \<in> set (r_existing rep) \<union> set (r_new rep))
                      = (c_name c \<in> oracle_existing_names an \<union> oracle_new_names an))))"
proof (cases "fileResponse env")
  case (Inl err)
  then show ?thesis using assms by (auto simp: parse_and_check_def)
next
  case info: (Inr info)
  show ?thesis
  proof (cases "nodeData env")
    case (Inl err)
    then show ?thesis using assms info by (auto simp: parse_and_check_def)
  next
    case doc: (Inr document)
    show ?thesis
    proof (cases "extractAllNestedComponents document")
      case (Inl err)
      then show ?thesis using assms info doc by (auto simp: parse_and_check_def)
    next
      case (Inr found)
      obtain comps screens where found: "found = (comps, screens)" by (cases found)
      obtain listing where listing: "fetch_tree (tree_page env) 1 [] = Some listing"
        using assms info doc Inr by (auto simp: parse_and_check_def split: option.splits)
      have resp: "resp = (case registry_check env info comps screens listing of
                     Inl gitlabError \<Rightarrow>
                       Success (without_registry_check info comps screens gitlabError)
                   | Inr rep \<Rightarrow> Success rep)"
        using assms info doc Inr found listing
        by (simp add: parse_and_check_def split: sum.splits)
      obtain rep where rep: "resp = Success rep" "r_screens rep = screens"
        "r_fileInfo rep = info"
        "case r_analysis rep of
              None \<Rightarrow> r_existing rep = [] \<and> r_new rep = comps
            | Some an \<Rightarrow>
                r_existing rep = filter (\<lambda>c. c_name c \<in> oracle_existing_names an) comps
              \<and> r_new rep = filter (\<lambda>c. c_name c \<in> oracle_new_names an) comps"
      proof (cases "registry_check env info comps screens listing")
        case (Inl gitlabError)
        then show ?thesis
          using that[of "without_registry_check info comps screens gitlabError"] resp
            without_registry_check_report[of info comps screens gitlabError]
          by simp
      next
        case r: (Inr rep')
        then show ?thesis
          using that[of rep'] resp registry_check_report[OF r] by simp
      qed
      have "case r_analysis rep of
              None \<Rightarrow> r_existing rep = [] \<and> r_new rep = comps
            | Some an \<Rightarrow>
                r_existing rep = filter (\<lambda>c. c_name c \<in> oracle_existing_names an) comps
              \<and> r_new rep = filter (\<lambda>c. c_name c \<in> oracle_new_names an) comps
              \<and> (\<forall>c \<in> set comps.
                    (c \<in> set (r_existing rep) \<union> set (r_new rep))
                      = (c_name c \<in> oracle_existing_names an \<union> oracle_new_names an))"
        using rep(4) by (auto split: option.splits)
      then show ?thesis
        using rep(1-3) info doc Inr found by blast
    qed
  qed
qed

theorem response_error_or_report_witness:
  "parse_and_check (env_with matching_analysis) =
     Some (Success \<lparr> r_message = ''Components parsed and checked successfully'',
                     r_availablePaths = None,
                     r_existing = [button_record],
                     r_new = [avatar_record],
                     r_analysis = Some matching_analysis,
                     r_screens = [screen_of home_screen],
                     r_fileInfo = example_info,
                     r_gitlabError = None \<rparr>)
   \<and> extractAllNestedComponents home_screen
       = Inr ([button_record, avatar_record], [screen_of home_screen])
   \<and> c_name button_record
         \<in> oracle_existing_names matching_analysis \<union> oracle_new_names matching_analysis
   \<and> c_name avatar_record
         \<in> oracle_existing_names matching_analysis \<union> oracle_new_names matching_analysis"
proof -
  have ex: "existingComponents matching_analysis [button_record, avatar_record]
      = Inr [button_record]"
    and nw: "newOfAnalysis matching_analysis [button_record, avatar_record]
      = Inr [avatar_record]"
    by (simp_all add: existingComponents_def newOfAnalysis_def matching_analysis_def
        record_eval)
  note r = env_with_response[OF ex nw]
  have env: "nodeData (env_with matching_analysis) = Inr home_screen"
    by (simp add: env_with_def)
  from response_error_or_report[OF r]
  have "\<forall>c \<in> set [button_record, avatar_record].
         (c \<in> set [button_record] \<union> set [avatar_record])
           = (c_name c \<in> oracle_existing_names matching_analysis
                \<union> oracle_new_names matching_analysis)"
    by (auto simp: env home_screen_extract)
  then have "\<forall>c \<in> set [button_record, avatar_record].
         c_name c \<in> oracle_existing_names matching_analysis \<union> oracle_new_names matching_analysis"
    by simp
  then have "c_name button_record
         \<in> oracle_existing_names matching_analysis \<union> oracle_new_names matching_analysis"
    "c_name avatar_record
         \<in> oracle_existing_names matching_analysis \<union> oracle_new_names matching_analysis"
    by simp_all
  then show ?thesis
    using r home_screen_extract by blast
qed

theorem silent_oracle_counterexample:
  "parse_and_check (env_with silent_analysis) =
     Some (Success \<lparr> r_message = ''Components parsed and checked successfully'',
                     r_availablePaths = None,
                     r_existing = [],
                     r_new = [],
                     r_analysis = Some silent_analysis,
                     r_screens = [screen_of home_screen],
                     r_fileInfo = example_info,
                     r_gitlabError = None \<rparr>)
   \<and> nodeData (env_with silent_analysis) = Inr home_screen
   \<and> extractAllNestedComponents home_screen
       = Inr ([button_record, avatar_record], [screen_of home_screen])"
proof -
  have ex: "existingComponents silent_analysis [button_record, avatar_record] = Inr []"
    and nw: "newOfAnalysis silent_analysis [button_record, avatar_record] = Inr []"
    by (simp_all add: existingComponents_def newOfAnalysis_def silent_analysis_def)
  show ?thesis
    using env_with_response[OF ex nw] home_screen_extract
    by (simp add: env_with_def)
qed

end
